theory Spec2Isabelle
  imports Main
begin

section \<open>Data model (types of the display component)\<close>

text \<open>
  The \<^verbatim>\<open>Announcement\<close> interface. JavaScript numbers are modelled as integers
  (indices, seconds and minutes are integers far below \<open>2^53\<close>). The column
  \<^verbatim>\<open>display_duration\<close> is nullable in the schema, so the field is optional:
  \<open>None\<close> is \<^verbatim>\<open>null\<close>/\<^verbatim>\<open>undefined\<close>. The field \<^verbatim>\<open>transition_type\<close> is a string
  at run time, whatever the declared union says.
\<close>

record announcement =
  id_field :: string
  image_url :: string
  display_duration :: "int option"
  transition_type :: string
  active :: bool
  created_at :: string

text \<open>The row returned by \<^verbatim>\<open>select('refresh_interval').single()\<close>.\<close>

record settings_row =
  refresh_interval :: int

text \<open>The pair \<^verbatim>\<open>{ data, error }\<close> the announcements query resolves to.\<close>

record list_response =
  data :: "announcement list option"
  error :: "string option"

text \<open>
  A live \<^verbatim>\<open>setTimeout\<close> of the cycle effect: its handle, the delay in milliseconds and
  the \<^verbatim>\<open>announcements\<close> array its callback closes over.
\<close>

record timeout =
  handle :: nat
  delay :: int
  captured :: "announcement list"

text \<open>
  The component's state: the four \<^verbatim>\<open>useState\<close> cells, the host's live timers
  (timeouts of the cycle effect, intervals of the poll effect as handle and period),
  the handle each effect's cleanup closes over, and the console.
\<close>

record display =
  announcements :: "announcement list"
  currentIndex :: int
  loading :: bool
  refreshInterval :: int
  timeouts :: "timeout list"
  intervals :: "(nat \<times> int) list"
  next_handle :: nat
  cycle_cleanup :: "nat option"
  poll_cleanup :: "nat option"
  console :: "string list"

section \<open>JavaScript primitives\<close>

text \<open>
  The remainder operator \<^verbatim>\<open>%\<close> on integers: the sign follows the dividend, and a zero
  divisor gives \<^verbatim>\<open>NaN\<close>, which is \<open>None\<close> here.
\<close>

definition js_rem :: "int \<Rightarrow> int \<Rightarrow> int option" where
  "js_rem a b = (if b = 0 then None else Some (sgn a * (\<bar>a\<bar> mod \<bar>b\<bar>)))"

text \<open>Array indexing \<^verbatim>\<open>xs[i]\<close>: \<^verbatim>\<open>undefined\<close> (\<open>None\<close>) outside the array.\<close>

definition at_index :: "'a list \<Rightarrow> int \<Rightarrow> 'a option" where
  "at_index xs i = (if 0 \<le> i \<and> i < int (length xs) then Some (xs ! nat i) else None)"

text \<open>\<^verbatim>\<open>x || 10\<close> on an optional number: \<^verbatim>\<open>undefined\<close>, \<^verbatim>\<open>null\<close> and \<open>0\<close> are falsy.\<close>

definition or_default :: "int option \<Rightarrow> int \<Rightarrow> int" where
  "or_default x d = (case x of None \<Rightarrow> d | Some v \<Rightarrow> if v = 0 then d else v)"

definition clearTimeout :: "nat \<Rightarrow> display \<Rightarrow> display" where
  "clearTimeout h s = s\<lparr>timeouts := filter (\<lambda>t. handle t \<noteq> h) (timeouts s)\<rparr>"

definition clearInterval :: "nat \<Rightarrow> display \<Rightarrow> display" where
  "clearInterval h s = s\<lparr>intervals := filter (\<lambda>t. fst t \<noteq> h) (intervals s)\<rparr>"

section \<open>The effects of \<^verbatim>\<open>Display\<close>\<close>

text \<open>
  The poll effect (dependency \<^verbatim>\<open>refreshInterval\<close>): arms an interval of
  \<^verbatim>\<open>Math.max(1, refreshInterval) * 60 * 1000\<close> milliseconds; its cleanup clears it.
\<close>

definition poll_effect :: "display \<Rightarrow> display" where
  "poll_effect s =
     (let safeInterval = max 1 (refreshInterval s);
          intervalMs = safeInterval * 60 * 1000;
          pollInterval = next_handle s
      in s\<lparr>intervals := intervals s @ [(pollInterval, intervalMs)],
            next_handle := Suc pollInterval,
            poll_cleanup := Some pollInterval\<rparr>)"

definition poll_cleanup_run :: "display \<Rightarrow> display" where
  "poll_cleanup_run s =
     (case poll_cleanup s of
        None \<Rightarrow> s
      | Some h \<Rightarrow> (clearInterval h s)\<lparr>poll_cleanup := None\<rparr>)"

text \<open>
  The cycle effect (dependencies \<^verbatim>\<open>currentIndex\<close>, \<^verbatim>\<open>announcements\<close>): nothing for a
  list of at most one item; otherwise a timeout of
  \<^verbatim>\<open>(announcements[currentIndex]?.display_duration || 10) * 1000\<close> milliseconds whose
  callback advances the index. Its cleanup clears that timeout.
\<close>

definition cycle_effect :: "display \<Rightarrow> display" where
  "cycle_effect s =
     (if length (announcements s) \<le> 1 then s\<lparr>cycle_cleanup := None\<rparr>
      else
        let currentAnnouncement = at_index (announcements s) (currentIndex s);
            duration = or_default (Option.bind currentAnnouncement display_duration) 10 * 1000;
            timer = next_handle s
        in s\<lparr>timeouts := timeouts s
                 @ [\<lparr>handle = timer, delay = duration, captured = announcements s\<rparr>],
              next_handle := Suc timer,
              cycle_cleanup := Some timer\<rparr>)"

definition cycle_cleanup_run :: "display \<Rightarrow> display" where
  "cycle_cleanup_run s =
     (case cycle_cleanup s of
        None \<Rightarrow> s
      | Some h \<Rightarrow> (clearTimeout h s)\<lparr>cycle_cleanup := None\<rparr>)"

section \<open>State setters\<close>

text \<open>
  A setter that stores an equal number re-runs no effect. A changed dependency runs the
  effect's previous cleanup and then the effect. \<^verbatim>\<open>setAnnouncements\<close> always receives a
  fresh array, so the cycle effect always re-runs after it.
\<close>

definition setCurrentIndex :: "int \<Rightarrow> display \<Rightarrow> display" where
  "setCurrentIndex v s =
     (if v = currentIndex s then s
      else cycle_effect (cycle_cleanup_run (s\<lparr>currentIndex := v\<rparr>)))"

definition setAnnouncements :: "announcement list \<Rightarrow> display \<Rightarrow> display" where
  "setAnnouncements xs s = cycle_effect (cycle_cleanup_run (s\<lparr>announcements := xs\<rparr>))"

definition setRefreshInterval :: "int \<Rightarrow> display \<Rightarrow> display" where
  "setRefreshInterval v s =
     (if v = refreshInterval s then s
      else poll_effect (poll_cleanup_run (s\<lparr>refreshInterval := v\<rparr>)))"

definition setLoading :: "bool \<Rightarrow> display \<Rightarrow> display" where
  "setLoading b s = s\<lparr>loading := b\<rparr>"

section \<open>\<^verbatim>\<open>fetchAnnouncements\<close>\<close>

text \<open>
  The function awaits two queries. The part up to the first await's continuation handles
  the announcements query, the part after the second await the settings query.
\<close>

definition fetch_list :: "list_response \<Rightarrow> display \<Rightarrow> display" where
  "fetch_list r s =
     (case error r of
        Some e \<Rightarrow> s\<lparr>console := console s @ [''Error fetching announcements: '' @ e]\<rparr>
      | None \<Rightarrow> setAnnouncements (case data r of Some xs \<Rightarrow> xs | None \<Rightarrow> []) s)"

definition fetch_settings :: "settings_row option \<Rightarrow> display \<Rightarrow> display" where
  "fetch_settings r s =
     setLoading False
       (case r of
          Some settings \<Rightarrow> setRefreshInterval (refresh_interval settings) s
        | None \<Rightarrow> s)"

definition fetchAnnouncements :: "list_response \<Rightarrow> settings_row option \<Rightarrow> display \<Rightarrow> display" where
  "fetchAnnouncements r st s = fetch_settings st (fetch_list r s)"

section \<open>Handlers and rendering\<close>

text \<open>
  The updaters compute with \<^verbatim>\<open>%\<close>; \<open>None\<close> is the update that would store \<^verbatim>\<open>NaN\<close>
  (an empty list), which the integer cell \<open>currentIndex\<close> cannot hold.
\<close>

definition handlePrev :: "display \<Rightarrow> display option" where
  "handlePrev s =
     map_option (\<lambda>v. setCurrentIndex v s)
       (js_rem (currentIndex s - 1 + int (length (announcements s)))
               (int (length (announcements s))))"

definition handleNext :: "display \<Rightarrow> display option" where
  "handleNext s =
     map_option (\<lambda>v. setCurrentIndex v s)
       (js_rem (currentIndex s + 1) (int (length (announcements s))))"

text \<open>The timeout's callback, run when the host fires the live timeout \<open>h\<close>.\<close>

definition timer_fired :: "nat \<Rightarrow> display \<Rightarrow> display option" where
  "timer_fired h s =
     (case find (\<lambda>t. handle t = h) (timeouts s) of
        None \<Rightarrow> None
      | Some t \<Rightarrow>
          map_option (\<lambda>v. setCurrentIndex v (clearTimeout h s))
            (js_rem (currentIndex s + 1) (int (length (captured t)))))"

definition getTransitionClass :: "int \<Rightarrow> int \<Rightarrow> string \<Rightarrow> string" where
  "getTransitionClass index currentIdx type' =
     (let isActive = (index = currentIdx) in
      if type' = ''none'' then (if isActive then ''opacity-100'' else ''opacity-0 hidden'')
      else if type' = ''slide''
        then (if isActive then ''translate-x-0 opacity-100'' else ''translate-x-full opacity-0'')
      else (if isActive then ''opacity-100'' else ''opacity-0''))"

definition isItemLoaded :: "display \<Rightarrow> int \<Rightarrow> bool" where
  "isItemLoaded s index =
     (if length (announcements s) \<le> 1 then True
      else
        let len = int (length (announcements s));
            isCurrent = (index = currentIndex s);
            isNext = (Some index = js_rem (currentIndex s + 1) len);
            isPrev = (Some index = js_rem (currentIndex s - 1 + len) len)
        in isCurrent \<or> isNext \<or> isPrev)"

text \<open>
  The indices of \<^verbatim>\<open>announcements.map\<close> whose \<^verbatim>\<open>AnnouncementMedia\<close> renders an element
  (\<^verbatim>\<open>shouldLoad\<close> true).
\<close>

definition materialized :: "display \<Rightarrow> int list" where
  "materialized s = filter (isItemLoaded s) (map int [0..<length (announcements s)])"

text \<open>The navigation controls are rendered once loading is over and the list is not empty.\<close>

definition controls_rendered :: "display \<Rightarrow> bool" where
  "controls_rendered s = (\<not> loading s \<and> length (announcements s) \<noteq> 0)"

section \<open>The component as a transition system\<close>

datatype event =
    TimerFired nat
  | ClickPrev
  | ClickNext
  | ClickDot nat
  | ListResponse list_response
  | SettingsResponse "settings_row option"

text \<open>
  One event of the host's queue, handled to completion (state update, re-render, effects).
  \<open>None\<close>: the event cannot happen in this state (control not rendered, timeout not live).
\<close>

definition step :: "display \<Rightarrow> event \<Rightarrow> display option" where
  "step s e =
     (case e of
        TimerFired h \<Rightarrow> timer_fired h s
      | ClickPrev \<Rightarrow> (if controls_rendered s then handlePrev s else None)
      | ClickNext \<Rightarrow> (if controls_rendered s then handleNext s else None)
      | ClickDot idx \<Rightarrow>
          (if controls_rendered s \<and> idx < length (announcements s)
           then Some (setCurrentIndex (int idx) s) else None)
      | ListResponse r \<Rightarrow> Some (fetch_list r s)
      | SettingsResponse r \<Rightarrow> Some (fetch_settings r s))"

fun run :: "display \<Rightarrow> event list \<Rightarrow> display option" where
  "run s [] = Some s"
| "run s (e # es) = (case step s e of None \<Rightarrow> None | Some s' \<Rightarrow> run s' es)"

text \<open>A click on a navigation control that is rendered: prev, next, or the dot of an item.\<close>

definition nav_click :: "display \<Rightarrow> event \<Rightarrow> bool" where
  "nav_click s e =
     (case e of
        ClickPrev \<Rightarrow> True
      | ClickNext \<Rightarrow> True
      | ClickDot idx \<Rightarrow> idx < length (announcements s)
      | _ \<Rightarrow> False)"

text \<open>An event that leaves the display with a list of at most one item.\<close>

definition short_list :: "event \<Rightarrow> bool" where
  "short_list e =
     (case e of
        ListResponse r \<Rightarrow>
          (case error r of
             Some _ \<Rightarrow> True
           | None \<Rightarrow> length (case data r of Some xs \<Rightarrow> xs | None \<Rightarrow> []) \<le> 1)
      | _ \<Rightarrow> True)"

text \<open>The state after the first render and its effects (poll effect, then cycle effect).\<close>

definition mount :: display where
  "mount =
     cycle_effect (poll_effect
       \<lparr>announcements = [], currentIndex = 0, loading = True, refreshInterval = 5,
        timeouts = [], intervals = [], next_handle = 0,
        cycle_cleanup = None, poll_cleanup = None, console = []\<rparr>)"

section \<open>Invariants of the reachable states\<close>

text \<open>
  Every live timeout is the one the cycle effect's cleanup will clear.
\<close>

definition cycle_tidy :: "display \<Rightarrow> bool" where
  "cycle_tidy s = list_all (\<lambda>t. cycle_cleanup s = Some (handle t)) (timeouts s)"

text \<open>
  The index is never negative; a list of at most one item has no timeout and no cleanup;
  a longer list has exactly one timeout, armed for the current item (or for the default
  when there is none) and closed over the current list.
\<close>

definition cycle_inv :: "display \<Rightarrow> bool" where
  "cycle_inv s =
     (0 \<le> currentIndex s \<and>
      (if length (announcements s) \<le> 1 then timeouts s = [] \<and> cycle_cleanup s = None
       else case cycle_cleanup s of
              None \<Rightarrow> False
            | Some h \<Rightarrow>
                timeouts s =
                  [\<lparr>handle = h,
                    delay = or_default (Option.bind (at_index (announcements s) (currentIndex s))
                                          display_duration) 10 * 1000,
                    captured = announcements s\<rparr>]))"

text \<open>Exactly one poll interval is live, at the cadence of the current \<^verbatim>\<open>refreshInterval\<close>.\<close>

definition poll_inv :: "display \<Rightarrow> bool" where
  "poll_inv s =
     (case poll_cleanup s of
        None \<Rightarrow> False
      | Some h \<Rightarrow> intervals s = [(h, max 1 (refreshInterval s) * 60 * 1000)])"

definition display_inv :: "display \<Rightarrow> bool" where
  "display_inv s = (cycle_inv s \<and> poll_inv s)"

section \<open>Example inputs\<close>

text \<open>The three items of the specification's scenario: A (5 s, fade), B (10 s, none), C (15 s, slide).\<close>

definition item_A :: announcement where
  "item_A = \<lparr>id_field = ''a'', image_url = ''a.png'', display_duration = Some 5,
             transition_type = ''fade'', active = True, created_at = ''2024-01-03''\<rparr>"

definition item_B :: announcement where
  "item_B = \<lparr>id_field = ''b'', image_url = ''b.mp4'', display_duration = Some 10,
             transition_type = ''none'', active = True, created_at = ''2024-01-02''\<rparr>"

definition item_C :: announcement where
  "item_C = \<lparr>id_field = ''c'', image_url = ''c.png'', display_duration = Some 15,
             transition_type = ''slide'', active = True, created_at = ''2024-01-01''\<rparr>"

text \<open>Two more items, D with the duration 0 and E without a duration.\<close>

definition item_D :: announcement where
  "item_D = \<lparr>id_field = ''d'', image_url = ''d.webm'', display_duration = Some 0,
             transition_type = ''fade'', active = True, created_at = ''2023-12-31''\<rparr>"

definition item_E :: announcement where
  "item_E = \<lparr>id_field = ''e'', image_url = ''e.png'', display_duration = None,
             transition_type = ''zoom'', active = True, created_at = ''2023-12-30''\<rparr>"

text \<open>A successful and a failed answer of the announcements query.\<close>

definition loaded :: "announcement list \<Rightarrow> event" where
  "loaded xs = ListResponse \<lparr>data = Some xs, error = None\<rparr>"

definition failed :: "string \<Rightarrow> list_response" where
  "failed e = \<lparr>data = None, error = Some e\<rparr>"

text \<open>The first fetch returns A, B, C and a refresh interval of 5 minutes.\<close>

definition boot :: "event list" where
  "boot = [loaded [item_A, item_B, item_C], SettingsResponse (Some \<lparr>refresh_interval = 5\<rparr>)]"

text \<open>The state after five items replaced the list of the first render.\<close>

definition five :: display where
  "five = setAnnouncements [item_A, item_B, item_C, item_D, item_E] mount"

text \<open>After two clicks on next the index is 2; then the list is replaced by a list of two.\<close>

definition shrink_to_two :: "event list" where
  "shrink_to_two = boot @ [ClickNext, ClickNext, loaded [item_A, item_B]]"

text \<open>The state after the first fetch of \<open>boot\<close>.\<close>

definition booted :: display where
  "booted =
     fetchAnnouncements \<lparr>data = Some [item_A, item_B, item_C], error = None\<rparr>
       (Some \<lparr>refresh_interval = 5\<rparr>) mount"

text \<open>The only item is A; then next and prev are clicked.\<close>

definition single_session :: "event list" where
  "single_session = [loaded [item_A], SettingsResponse None, ClickNext, ClickPrev]"

text \<open>Five items are fetched and the dot of item D (duration 0) or E (no duration) is clicked.\<close>

definition to_item_D :: "event list" where
  "to_item_D = [loaded [item_A, item_B, item_C, item_D, item_E], SettingsResponse None, ClickDot 3]"

definition to_item_E :: "event list" where
  "to_item_E = [loaded [item_A, item_B, item_C, item_D, item_E], SettingsResponse None, ClickDot 4]"

text \<open>After two clicks on next the index is 2; then the list is replaced by the single item A.\<close>

definition shrink_to_one :: "event list" where
  "shrink_to_one = boot @ [ClickNext, ClickNext, loaded [item_A]]"

text \<open>Ten rapid clicks, and a session with the single item A in which ten clicks follow.\<close>

definition rapid_clicks :: "event list" where
  "rapid_clicks =
     [ClickNext, ClickNext, ClickPrev, ClickDot 0, ClickNext,
      ClickNext, ClickNext, ClickPrev, ClickDot 2, ClickNext]"

definition single_burst :: "event list" where
  "single_burst =
     [loaded [item_A], SettingsResponse None,
      ClickNext, ClickNext, ClickNext, ClickNext, ClickNext,
      ClickPrev, ClickPrev, ClickPrev, ClickPrev, ClickPrev]"

lemmas effect_defs =
  clearTimeout_def clearInterval_def poll_effect_def poll_cleanup_run_def
  cycle_effect_def cycle_cleanup_run_def

lemmas setter_defs =
  setCurrentIndex_def setAnnouncements_def setRefreshInterval_def setLoading_def

lemmas handler_defs =
  fetch_list_def fetch_settings_def fetchAnnouncements_def handlePrev_def handleNext_def
  timer_fired_def controls_rendered_def step_def

lemmas js_defs = js_rem_def at_index_def or_default_def

lemmas example_defs =
  item_A_def item_B_def item_C_def item_D_def item_E_def loaded_def boot_def

lemmas all_defs = mount_def effect_defs setter_defs handler_defs js_defs example_defs

section \<open>The invariant holds in every reachable state\<close>

lemma cycle_inv_tidy: "cycle_inv s \<Longrightarrow> cycle_tidy s"
  by (auto simp: cycle_inv_def cycle_tidy_def split: if_splits option.splits)

lemma tidy_cleanup_timeouts: "cycle_tidy s \<Longrightarrow> timeouts (cycle_cleanup_run s) = []"
  by (cases "cycle_cleanup s")
     (auto simp: cycle_tidy_def cycle_cleanup_run_def clearTimeout_def list_all_iff filter_empty_conv)

lemma cleanup_run_fields:
  "announcements (cycle_cleanup_run s) = announcements s"
  "currentIndex (cycle_cleanup_run s) = currentIndex s"
  "loading (cycle_cleanup_run s) = loading s"
  "refreshInterval (cycle_cleanup_run s) = refreshInterval s"
  "intervals (cycle_cleanup_run s) = intervals s"
  "poll_cleanup (cycle_cleanup_run s) = poll_cleanup s"
  "console (cycle_cleanup_run s) = console s"
  by (simp_all add: cycle_cleanup_run_def clearTimeout_def split: option.splits)

lemma cycle_effect_fields:
  "announcements (cycle_effect s) = announcements s"
  "currentIndex (cycle_effect s) = currentIndex s"
  "loading (cycle_effect s) = loading s"
  "refreshInterval (cycle_effect s) = refreshInterval s"
  "intervals (cycle_effect s) = intervals s"
  "poll_cleanup (cycle_effect s) = poll_cleanup s"
  "console (cycle_effect s) = console s"
  by (simp_all add: cycle_effect_def Let_def)

lemma cycle_effect_inv:
  "timeouts s = [] \<Longrightarrow> 0 \<le> currentIndex s \<Longrightarrow> cycle_inv (cycle_effect s)"
  by (simp add: cycle_inv_def cycle_effect_def Let_def)

lemma rerun_inv:
  "cycle_tidy s \<Longrightarrow> 0 \<le> currentIndex s \<Longrightarrow> cycle_inv (cycle_effect (cycle_cleanup_run s))"
  by (rule cycle_effect_inv) (simp_all add: tidy_cleanup_timeouts cleanup_run_fields)

lemma tidy_upd:
  "cycle_tidy s \<Longrightarrow> cycle_tidy (s\<lparr>currentIndex := v\<rparr>)"
  "cycle_tidy s \<Longrightarrow> cycle_tidy (s\<lparr>announcements := xs\<rparr>)"
  by (simp_all add: cycle_tidy_def)

lemma setCurrentIndex_inv:
  "cycle_inv s \<Longrightarrow> 0 \<le> v \<Longrightarrow> cycle_inv (setCurrentIndex v s)"
  unfolding setCurrentIndex_def
  by (auto intro!: rerun_inv tidy_upd dest: cycle_inv_tidy)

lemma setAnnouncements_inv:
  assumes "cycle_inv s"
  shows "cycle_inv (setAnnouncements xs s)"
proof -
  have "cycle_tidy (s\<lparr>announcements := xs\<rparr>)"
    using assms by (simp add: cycle_inv_tidy tidy_upd)
  moreover have "0 \<le> currentIndex (s\<lparr>announcements := xs\<rparr>)"
    using assms by (simp add: cycle_inv_def)
  ultimately show ?thesis
    unfolding setAnnouncements_def by (rule rerun_inv)
qed

lemma js_rem_nonneg:
  "0 \<le> a \<Longrightarrow> 0 < b \<Longrightarrow> js_rem a b = Some (a mod b)"
  by (cases "a = 0") (simp_all add: js_rem_def)

lemma advance_changes:
  fixes c n :: int
  assumes "0 \<le> c" "2 \<le> n"
  shows "(c + 1) mod n \<noteq> c"
proof
  assume h: "(c + 1) mod n = c"
  have "c < n" using h assms pos_mod_bound [of n "c + 1"] by linarith
  show False
  proof (cases "c + 1 < n")
    case True
    then have "(c + 1) mod n = c + 1" using assms by simp
    with h show False by simp
  next
    case False
    with \<open>c < n\<close> have "c + 1 = n" by simp
    then have "(c + 1) mod n = 0" by simp
    with h \<open>c + 1 = n\<close> assms show False by simp
  qed
qed

lemma cycle_inv_cong:
  assumes "announcements s' = announcements s" "currentIndex s' = currentIndex s"
    "timeouts s' = timeouts s" "cycle_cleanup s' = cycle_cleanup s"
  shows "cycle_inv s' = cycle_inv s"
  unfolding cycle_inv_def assms ..

lemma poll_inv_cong:
  assumes "intervals s' = intervals s" "poll_cleanup s' = poll_cleanup s"
    "refreshInterval s' = refreshInterval s"
  shows "poll_inv s' = poll_inv s"
  unfolding poll_inv_def assms ..

lemma setCurrentIndex_fields:
  "announcements (setCurrentIndex v s) = announcements s"
  "loading (setCurrentIndex v s) = loading s"
  "refreshInterval (setCurrentIndex v s) = refreshInterval s"
  "intervals (setCurrentIndex v s) = intervals s"
  "poll_cleanup (setCurrentIndex v s) = poll_cleanup s"
  "console (setCurrentIndex v s) = console s"
  "currentIndex (setCurrentIndex v s) = v"
  by (simp_all add: setCurrentIndex_def cycle_effect_fields cleanup_run_fields)

lemma setAnnouncements_fields:
  "announcements (setAnnouncements xs s) = xs"
  "currentIndex (setAnnouncements xs s) = currentIndex s"
  "loading (setAnnouncements xs s) = loading s"
  "refreshInterval (setAnnouncements xs s) = refreshInterval s"
  "intervals (setAnnouncements xs s) = intervals s"
  "poll_cleanup (setAnnouncements xs s) = poll_cleanup s"
  "console (setAnnouncements xs s) = console s"
  by (simp_all add: setAnnouncements_def cycle_effect_fields cleanup_run_fields)

lemma setRefreshInterval_fields:
  "announcements (setRefreshInterval v s) = announcements s"
  "currentIndex (setRefreshInterval v s) = currentIndex s"
  "loading (setRefreshInterval v s) = loading s"
  "timeouts (setRefreshInterval v s) = timeouts s"
  "cycle_cleanup (setRefreshInterval v s) = cycle_cleanup s"
  "console (setRefreshInterval v s) = console s"
  "refreshInterval (setRefreshInterval v s) = v"
  by (simp_all add: setRefreshInterval_def poll_effect_def poll_cleanup_run_def
        clearInterval_def Let_def split: option.splits)

lemma setRefreshInterval_inv:
  assumes "poll_inv s"
  shows "poll_inv (setRefreshInterval v s)"
  using assms
  by (auto simp: poll_inv_def setRefreshInterval_def poll_effect_def poll_cleanup_run_def
        clearInterval_def Let_def split: option.splits)

lemma clearTimeout_fields:
  "announcements (clearTimeout h s) = announcements s"
  "currentIndex (clearTimeout h s) = currentIndex s"
  "loading (clearTimeout h s) = loading s"
  "refreshInterval (clearTimeout h s) = refreshInterval s"
  "intervals (clearTimeout h s) = intervals s"
  "poll_cleanup (clearTimeout h s) = poll_cleanup s"
  "cycle_cleanup (clearTimeout h s) = cycle_cleanup s"
  "console (clearTimeout h s) = console s"
  by (simp_all add: clearTimeout_def)

text \<open>What a firing timeout does in a state that satisfies the invariant.\<close>

lemma timer_fired_cycling:
  assumes inv: "cycle_inv s" and len: "2 \<le> length (announcements s)"
  shows "\<exists>h. cycle_cleanup s = Some h
           \<and> (\<forall>h'. h' \<noteq> h \<longrightarrow> timer_fired h' s = None)
           \<and> timer_fired h s =
               Some (cycle_effect (cycle_cleanup_run
                 ((clearTimeout h s)\<lparr>currentIndex :=
                    (currentIndex s + 1) mod int (length (announcements s))\<rparr>)))"
proof -
  let ?n = "int (length (announcements s))"
  let ?c = "currentIndex s"
  from inv len obtain h where h: "cycle_cleanup s = Some h"
    and ts: "timeouts s =
      [\<lparr>handle = h,
        delay = or_default (Option.bind (at_index (announcements s) ?c) display_duration) 10 * 1000,
        captured = announcements s\<rparr>]"
    by (auto simp: cycle_inv_def split: option.splits)
  have c0: "0 \<le> ?c" using inv by (simp add: cycle_inv_def)
  have n2: "2 \<le> ?n" using len by linarith
  have rem: "js_rem (?c + 1) ?n = Some ((?c + 1) mod ?n)"
    using c0 n2 by (intro js_rem_nonneg) linarith+
  have ne: "(?c + 1) mod ?n \<noteq> ?c"
    using c0 n2 by (rule advance_changes)
  have "timer_fired h s = Some (setCurrentIndex ((?c + 1) mod ?n) (clearTimeout h s))"
    by (simp add: timer_fired_def ts rem)
  moreover have "setCurrentIndex ((?c + 1) mod ?n) (clearTimeout h s) =
      cycle_effect (cycle_cleanup_run ((clearTimeout h s)\<lparr>currentIndex := (?c + 1) mod ?n\<rparr>))"
    using ne by (simp add: setCurrentIndex_def clearTimeout_fields)
  moreover have "\<forall>h'. h' \<noteq> h \<longrightarrow> timer_fired h' s = None"
    by (auto simp: timer_fired_def ts)
  ultimately show ?thesis using h by auto
qed

lemma timer_fired_single:
  assumes "cycle_inv s" "length (announcements s) \<le> 1"
  shows "timer_fired h s = None"
  using assms by (simp add: cycle_inv_def timer_fired_def)

lemma clearTimeout_tidy:
  "cycle_cleanup s = Some h \<Longrightarrow> cycle_tidy s \<Longrightarrow> cycle_tidy ((clearTimeout h s)\<lparr>currentIndex := v\<rparr>)"
  by (simp add: cycle_tidy_def clearTimeout_def list_all_iff)

lemma timer_fired_inv:
  assumes inv: "cycle_inv s" and f: "timer_fired h s = Some s'"
  shows "cycle_inv s' \<and> announcements s' = announcements s
         \<and> currentIndex s' = (currentIndex s + 1) mod int (length (announcements s))
         \<and> intervals s' = intervals s \<and> poll_cleanup s' = poll_cleanup s
         \<and> refreshInterval s' = refreshInterval s \<and> loading s' = loading s
         \<and> console s' = console s"
proof -
  have len: "2 \<le> length (announcements s)"
    using timer_fired_single [OF inv, of h] f by (cases "length (announcements s) \<le> 1") auto
  from timer_fired_cycling [OF inv len] obtain h0 where h0: "cycle_cleanup s = Some h0"
    and other: "\<forall>h'. h' \<noteq> h0 \<longrightarrow> timer_fired h' s = None"
    and fire: "timer_fired h0 s =
               Some (cycle_effect (cycle_cleanup_run
                 ((clearTimeout h0 s)\<lparr>currentIndex :=
                    (currentIndex s + 1) mod int (length (announcements s))\<rparr>)))"
    by blast
  have hh: "h = h0" using other f by (cases "h = h0") auto
  let ?m = "(clearTimeout h0 s)\<lparr>currentIndex := (currentIndex s + 1) mod int (length (announcements s))\<rparr>"
  have s': "s' = cycle_effect (cycle_cleanup_run ?m)" using f fire hh by simp
  have pos: "0 < int (length (announcements s))" using len by linarith
  have "cycle_tidy ?m" using h0 inv by (intro clearTimeout_tidy cycle_inv_tidy)
  moreover have "0 \<le> currentIndex ?m" using pos by (simp del: of_nat_0_less_iff)
  ultimately have "cycle_inv s'" unfolding s' by (rule rerun_inv)
  then show ?thesis
    by (simp add: s' cycle_effect_fields cleanup_run_fields clearTimeout_fields)
qed

lemma mount_inv: "display_inv mount"
  by (simp add: display_inv_def cycle_inv_def poll_inv_def mount_def cycle_effect_def
        poll_effect_def Let_def)

lemma handleNext_Some:
  assumes "cycle_inv s" "length (announcements s) \<noteq> 0"
  shows "handleNext s =
    Some (setCurrentIndex ((currentIndex s + 1) mod int (length (announcements s))) s)"
proof -
  have "0 \<le> currentIndex s + 1" using assms by (simp add: cycle_inv_def)
  moreover have "0 < int (length (announcements s))" using assms by linarith
  ultimately show ?thesis by (simp add: handleNext_def js_rem_nonneg del: of_nat_0_less_iff)
qed

lemma handlePrev_Some:
  assumes "cycle_inv s" "length (announcements s) \<noteq> 0"
  shows "handlePrev s =
    Some (setCurrentIndex
      ((currentIndex s - 1 + int (length (announcements s))) mod int (length (announcements s))) s)"
proof -
  have pos: "0 < int (length (announcements s))" using assms by linarith
  have c0: "0 \<le> currentIndex s" using assms by (simp add: cycle_inv_def)
  have "0 \<le> currentIndex s - 1 + int (length (announcements s))"
    using c0 pos by linarith
  with pos show ?thesis by (simp add: handlePrev_def js_rem_nonneg del: of_nat_0_less_iff)
qed

lemma setCurrentIndex_poll_inv: "poll_inv (setCurrentIndex v s) = poll_inv s"
  by (rule poll_inv_cong) (simp_all add: setCurrentIndex_fields)

lemma setAnnouncements_poll_inv: "poll_inv (setAnnouncements xs s) = poll_inv s"
  by (rule poll_inv_cong) (simp_all add: setAnnouncements_fields)

lemma setRefreshInterval_cycle_inv: "cycle_inv (setRefreshInterval v s) = cycle_inv s"
  by (rule cycle_inv_cong) (simp_all add: setRefreshInterval_fields)

lemma setCurrentIndex_display_inv:
  "display_inv s \<Longrightarrow> 0 \<le> v \<Longrightarrow> display_inv (setCurrentIndex v s)"
  by (simp add: display_inv_def setCurrentIndex_inv setCurrentIndex_poll_inv)

lemma loading_inv: "display_inv (s\<lparr>loading := b\<rparr>) = display_inv s"
  unfolding display_inv_def
  using cycle_inv_cong [of "s\<lparr>loading := b\<rparr>" s] poll_inv_cong [of "s\<lparr>loading := b\<rparr>" s]
  by simp

lemma console_inv: "display_inv (s\<lparr>console := l\<rparr>) = display_inv s"
  unfolding display_inv_def
  using cycle_inv_cong [of "s\<lparr>console := l\<rparr>" s] poll_inv_cong [of "s\<lparr>console := l\<rparr>" s]
  by simp

lemma fetch_list_inv: "display_inv s \<Longrightarrow> display_inv (fetch_list r s)"
proof (cases "error r")
  case None
  assume "display_inv s"
  then show ?thesis
    using None
    by (simp add: fetch_list_def display_inv_def setAnnouncements_inv setAnnouncements_poll_inv)
next
  case (Some e)
  assume "display_inv s"
  then show ?thesis
    using Some by (simp add: fetch_list_def console_inv)
qed

lemma fetch_settings_inv:
  assumes "display_inv s"
  shows "display_inv (fetch_settings r s)"
proof -
  have "display_inv (case r of Some st \<Rightarrow> setRefreshInterval (refresh_interval st) s | None \<Rightarrow> s)"
    using assms
    by (cases r)
       (simp_all add: display_inv_def setRefreshInterval_inv setRefreshInterval_cycle_inv)
  then show ?thesis
    by (simp add: fetch_settings_def setLoading_def loading_inv)
qed

lemma step_inv:
  assumes inv: "display_inv s" and st: "step s e = Some s'"
  shows "display_inv s'"
proof (cases e)
  case (TimerFired h)
  with st have f: "timer_fired h s = Some s'" by (simp add: step_def)
  from inv have c: "cycle_inv s" and p: "poll_inv s" by (simp_all add: display_inv_def)
  from timer_fired_inv [OF c f] have c': "cycle_inv s'"
    and eqs: "intervals s' = intervals s" "poll_cleanup s' = poll_cleanup s"
      "refreshInterval s' = refreshInterval s"
    by simp_all
  from poll_inv_cong [OF eqs] p c' show ?thesis by (simp add: display_inv_def)
next
  case ClickPrev
  with st have r: "length (announcements s) \<noteq> 0" and h: "handlePrev s = Some s'"
    by (simp_all add: step_def controls_rendered_def split: if_splits)
  from inv have c: "cycle_inv s" by (simp add: display_inv_def)
  have pos: "0 < int (length (announcements s))" using r by linarith
  have "0 \<le> (currentIndex s - 1 + int (length (announcements s))) mod int (length (announcements s))"
    using pos by (rule pos_mod_sign)
  with handlePrev_Some [OF c r] h inv show ?thesis
    by (auto intro: setCurrentIndex_display_inv)
next
  case ClickNext
  with st have r: "length (announcements s) \<noteq> 0" and h: "handleNext s = Some s'"
    by (simp_all add: step_def controls_rendered_def split: if_splits)
  from inv have c: "cycle_inv s" by (simp add: display_inv_def)
  have pos: "0 < int (length (announcements s))" using r by linarith
  have "0 \<le> (currentIndex s + 1) mod int (length (announcements s))"
    using pos by (rule pos_mod_sign)
  with handleNext_Some [OF c r] h inv show ?thesis
    by (auto intro: setCurrentIndex_display_inv)
next
  case (ClickDot idx)
  with st have "s' = setCurrentIndex (int idx) s"
    by (simp add: step_def split: if_splits)
  with inv show ?thesis by (simp add: setCurrentIndex_display_inv)
next
  case (ListResponse r)
  with st inv show ?thesis by (auto simp: step_def fetch_list_inv)
next
  case (SettingsResponse r)
  with st inv show ?thesis by (auto simp: step_def fetch_settings_inv)
qed

lemma run_inv:
  "display_inv s \<Longrightarrow> run s es = Some s' \<Longrightarrow> display_inv s'"
proof (induction es arbitrary: s)
  case Nil
  then show ?case by simp
next
  case (Cons e es)
  then show ?case by (auto split: option.splits dest: step_inv)
qed

lemma reachable_inv: "run mount es = Some s \<Longrightarrow> display_inv s"
  using mount_inv run_inv by blast

lemma run_append:
  "run s (es @ fs) = (case run s es of None \<Rightarrow> None | Some s' \<Rightarrow> run s' fs)"
  by (induction es arbitrary: s) (auto split: option.splits)

section \<open>Transition classes\<close>

text \<open>
  Claim C8. For every index, current index and transition type, the class computed by
  \<^verbatim>\<open>getTransitionClass\<close> is: for \<^verbatim>\<open>none\<close>, \<^verbatim>\<open>opacity-100\<close> (fully opaque) if the
  index is current and \<^verbatim>\<open>opacity-0 hidden\<close> (fully hidden) otherwise; for \<^verbatim>\<open>slide\<close>,
  \<^verbatim>\<open>translate-x-0 opacity-100\<close> (rest position, opaque) if current and
  \<^verbatim>\<open>translate-x-full opacity-0\<close> (off-stage, transparent) otherwise; for \<^verbatim>\<open>fade\<close> and
  every other value, \<^verbatim>\<open>opacity-100\<close> if current and \<^verbatim>\<open>opacity-0\<close> otherwise.
\<close>

theorem transition_class_table:
  "getTransitionClass i c ''none'' = (if i = c then ''opacity-100'' else ''opacity-0 hidden'')
   \<and> getTransitionClass i c ''slide''
       = (if i = c then ''translate-x-0 opacity-100'' else ''translate-x-full opacity-0'')
   \<and> getTransitionClass i c ''fade'' = (if i = c then ''opacity-100'' else ''opacity-0'')
   \<and> (ty \<noteq> ''none'' \<and> ty \<noteq> ''slide'' \<longrightarrow>
        getTransitionClass i c ty = (if i = c then ''opacity-100'' else ''opacity-0''))"
  by (simp add: getTransitionClass_def)

text \<open>The table at an unknown transition type, for the current and for another index.\<close>

theorem transition_class_table_witness:
  "''zoom'' \<noteq> ''none'' \<and> ''zoom'' \<noteq> ''slide''
   \<and> getTransitionClass 1 1 ''zoom'' = ''opacity-100''
   \<and> getTransitionClass 0 1 ''zoom'' = ''opacity-0''
   \<and> getTransitionClass 0 1 ''none'' = ''opacity-0 hidden''
   \<and> getTransitionClass 0 1 ''slide'' = ''translate-x-full opacity-0''"
  using transition_class_table [of 1 1 "''zoom''"] transition_class_table [of 0 1 "''zoom''"]
  by simp

section \<open>Preload selector\<close>

lemma materialized_set:
  "set (materialized s) =
     {i. 0 \<le> i \<and> i < int (length (announcements s)) \<and> isItemLoaded s i}"
  by (auto simp: materialized_def image_int_atLeastLessThan)

lemma materialized_distinct: "distinct (materialized s)"
  by (simp add: materialized_def distinct_map inj_on_def)

lemma materialized_length: "length (materialized s) = card (set (materialized s))"
  by (simp add: materialized_distinct distinct_card)

lemma isItemLoaded_many:
  assumes "2 \<le> length (announcements s)" "0 \<le> currentIndex s"
  shows "isItemLoaded s i \<longleftrightarrow>
     i = currentIndex s
     \<or> i = (currentIndex s + 1) mod int (length (announcements s))
     \<or> i = (currentIndex s - 1 + int (length (announcements s))) mod int (length (announcements s))"
proof -
  let ?n = "int (length (announcements s))"
  have n: "2 \<le> ?n" using assms by linarith
  have a: "js_rem (currentIndex s + 1) ?n = Some ((currentIndex s + 1) mod ?n)"
    using assms n by (intro js_rem_nonneg) linarith+
  have b: "js_rem (currentIndex s - 1 + ?n) ?n = Some ((currentIndex s - 1 + ?n) mod ?n)"
    using assms n by (intro js_rem_nonneg) linarith+
  have "\<not> length (announcements s) \<le> 1" using assms by simp
  then show ?thesis
    by (simp only: isItemLoaded_def a b Let_def if_False option.inject)
qed

text \<open>
  Claim C4. For every list length \<open>N\<close> and every in-range current index \<open>c\<close>, the set of
  indices whose media is materialized is \<open>{c}\<close>, all the indices, when \<open>N \<le> 1\<close>, and
  exactly \<open>{c, (c + 1) mod N, (c - 1 + N) mod N}\<close> when \<open>N \<ge> 2\<close>; hence at most three
  media elements are loaded at once.
\<close>

theorem preload_set:
  assumes "0 \<le> currentIndex s" "currentIndex s < int (length (announcements s))"
  shows "set (materialized s) =
           (if length (announcements s) \<le> 1 then {currentIndex s}
            else {currentIndex s,
                  (currentIndex s + 1) mod int (length (announcements s)),
                  (currentIndex s - 1 + int (length (announcements s)))
                     mod int (length (announcements s))})
         \<and> (length (announcements s) \<le> 1 \<longrightarrow>
              materialized s = map int [0..<length (announcements s)])
         \<and> length (materialized s) \<le> 3"
proof (cases "length (announcements s) \<le> 1")
  case True
  with assms have one: "length (announcements s) = 1" and c: "currentIndex s = 0" by linarith+
  have m: "materialized s = map int [0..<length (announcements s)]"
    using True by (simp add: materialized_def isItemLoaded_def)
  have m0: "materialized s = [0]" using m one by simp
  have "set (materialized s) = {currentIndex s}" using m0 c by simp
  moreover have "length (materialized s) \<le> 3" using m0 by simp
  ultimately show ?thesis using True m by simp
next
  case False
  let ?n = "int (length (announcements s))"
  let ?c = "currentIndex s"
  have n: "2 \<le> ?n" and len: "2 \<le> length (announcements s)" using False by linarith+
  have pos: "0 < ?n" using n by linarith
  have r1: "0 \<le> (?c + 1) mod ?n" "(?c + 1) mod ?n < ?n"
    using pos by (rule pos_mod_sign, rule pos_mod_bound)
  have r2: "0 \<le> (?c - 1 + ?n) mod ?n" "(?c - 1 + ?n) mod ?n < ?n"
    using pos by (rule pos_mod_sign, rule pos_mod_bound)
  have eq: "set (materialized s) = {?c, (?c + 1) mod ?n, (?c - 1 + ?n) mod ?n}"
    unfolding materialized_set
    using assms r1 r2 by (auto simp: isItemLoaded_many [OF len assms(1)])
  have "card {?c, (?c + 1) mod ?n, (?c - 1 + ?n) mod ?n} \<le> 3"
    using card_length [of "[?c, (?c + 1) mod ?n, (?c - 1 + ?n) mod ?n]"] by simp
  with eq have "length (materialized s) \<le> 3" by (simp add: materialized_length)
  with eq False show ?thesis by simp
qed

text \<open>Five items, current index 0: the items 0, 1 and 4 are materialized.\<close>

theorem preload_set_witness:
  "0 \<le> currentIndex five \<and> currentIndex five < int (length (announcements five))
   \<and> set (materialized five) = {0, 1, 4} \<and> length (materialized five) \<le> 3"
  using preload_set [of five]
  by (simp add: five_def item_A_def item_B_def item_C_def item_D_def item_E_def mount_def
        setter_defs effect_defs)

section \<open>Refresh poller\<close>

lemma poll_inv_intervals:
  "poll_inv s \<Longrightarrow> map snd (intervals s) = [max 1 (refreshInterval s) * 60 * 1000]"
  by (auto simp: poll_inv_def split: option.splits)

lemma fetch_settings_refreshInterval:
  "refreshInterval (fetch_settings (Some st) s) = refresh_interval st"
  by (simp add: fetch_settings_def setLoading_def setRefreshInterval_fields)

text \<open>
  Claim C6. For every fetched \<^verbatim>\<open>refresh_interval\<close>, zero and negative values included, the
  poll interval that is armed has the period \<open>max 1 refresh_interval * 60 * 1000\<close>
  milliseconds: in every reachable state the one live poll interval has the cadence of the
  stored value, and so it has after a settings answer stored a value \<open>r\<close>.
\<close>

theorem poll_cadence:
  assumes "run mount es = Some s"
  shows "map snd (intervals s) = [max 1 (refreshInterval s) * 60 * 1000]
       \<and> refreshInterval (fetch_settings (Some \<lparr>refresh_interval = r\<rparr>) s) = r
       \<and> map snd (intervals (fetch_settings (Some \<lparr>refresh_interval = r\<rparr>) s))
            = [max 1 r * 60 * 1000]"
proof -
  let ?s' = "fetch_settings (Some \<lparr>refresh_interval = r\<rparr>) s"
  have inv: "display_inv s" using assms by (rule reachable_inv)
  then have "display_inv ?s'" by (rule fetch_settings_inv)
  then have "map snd (intervals ?s') = [max 1 (refreshInterval ?s') * 60 * 1000]"
    by (simp add: display_inv_def poll_inv_intervals)
  moreover have "refreshInterval ?s' = r" by (simp add: fetch_settings_refreshInterval)
  moreover have "map snd (intervals s) = [max 1 (refreshInterval s) * 60 * 1000]"
    using inv by (simp add: display_inv_def poll_inv_intervals)
  ultimately show ?thesis by simp
qed

text \<open>After the first fetch the cadence is 5 minutes; answers 0 and -3 give 1 minute, 2 gives 2.\<close>

theorem poll_cadence_witness:
  "run mount boot \<noteq> None
   \<and> map snd (intervals (the (run mount boot))) = [300000]
   \<and> map snd (intervals (fetch_settings (Some \<lparr>refresh_interval = 0\<rparr>) (the (run mount boot))))
        = [60000]
   \<and> map snd (intervals (fetch_settings (Some \<lparr>refresh_interval = - 3\<rparr>) (the (run mount boot))))
        = [60000]
   \<and> map snd (intervals (fetch_settings (Some \<lparr>refresh_interval = 2\<rparr>) (the (run mount boot))))
        = [120000]"
  using poll_cadence [of boot "the (run mount boot)" 0]
        poll_cadence [of boot "the (run mount boot)" "- 3"]
        poll_cadence [of boot "the (run mount boot)" 2]
  by (simp add: all_defs)

section \<open>Manual navigation\<close>

lemma next_prev_arith:
  fixes c n :: int
  assumes "0 \<le> c" "c < n"
  shows "((c + 1) mod n - 1 + n) mod n = c" "((c - 1 + n) mod n + 1) mod n = c"
proof -
  have triv: "c mod n = c" using assms by simp
  show "((c + 1) mod n - 1 + n) mod n = c"
  proof (cases "c + 1 < n")
    case True
    then have "(c + 1) mod n = c + 1" using assms by simp
    then have "(c + 1) mod n - 1 + n = c + n" by linarith
    then have "((c + 1) mod n - 1 + n) mod n = (c + n) mod n" by (simp only:)
    also have "\<dots> = c" using triv by simp
    finally show ?thesis .
  next
    case False
    then have e: "c + 1 = n" using assms by simp
    then have "(c + 1) mod n = 0" by simp
    then have "(c + 1) mod n - 1 + n = c" using e by linarith
    then have "((c + 1) mod n - 1 + n) mod n = c mod n" by (simp only:)
    then show ?thesis using triv by simp
  qed
  show "((c - 1 + n) mod n + 1) mod n = c"
  proof (cases "c = 0")
    case True
    have "(n - 1) mod n = n - 1" using assms by (intro mod_pos_pos_trivial) linarith+
    then have "(c - 1 + n) mod n = n - 1" using True by (simp add: algebra_simps)
    then have "(c - 1 + n) mod n + 1 = n" by linarith
    then have "((c - 1 + n) mod n + 1) mod n = n mod n" by (simp only:)
    then show ?thesis using True by simp
  next
    case False
    have "(c - 1) mod n = c - 1" using assms False by (intro mod_pos_pos_trivial) linarith+
    then have "(c - 1 + n) mod n = c - 1" by simp
    then have "(c - 1 + n) mod n + 1 = c" by linarith
    then have "((c - 1 + n) mod n + 1) mod n = c mod n" by (simp only:)
    then show ?thesis using triv by simp
  qed
qed

lemma handleNext_index:
  assumes "0 \<le> currentIndex s" "length (announcements s) \<noteq> 0"
  shows "\<exists>s'. handleNext s = Some s' \<and> announcements s' = announcements s
           \<and> currentIndex s' = (currentIndex s + 1) mod int (length (announcements s))"
proof -
  have "0 \<le> currentIndex s + 1" using assms by simp
  moreover have "0 < int (length (announcements s))" using assms by linarith
  ultimately show ?thesis
    by (simp add: handleNext_def js_rem_nonneg setCurrentIndex_fields del: of_nat_0_less_iff)
qed

lemma handlePrev_index:
  assumes "0 \<le> currentIndex s" "length (announcements s) \<noteq> 0"
  shows "\<exists>s'. handlePrev s = Some s' \<and> announcements s' = announcements s
           \<and> currentIndex s' =
               (currentIndex s - 1 + int (length (announcements s))) mod int (length (announcements s))"
proof -
  have pos: "0 < int (length (announcements s))" using assms by linarith
  have "0 \<le> currentIndex s - 1 + int (length (announcements s))" using assms pos by linarith
  with pos show ?thesis
    by (simp add: handlePrev_def js_rem_nonneg setCurrentIndex_fields del: of_nat_0_less_iff)
qed

text \<open>
  Claim C10, as amended. For every list and every in-range current index
  (\<open>0 \<le> c < N\<close>, hence \<open>N \<ge> 1\<close>), manual next followed by manual prev, and prev followed by
  next, return \<^verbatim>\<open>currentIndex\<close> to its original value.
\<close>

theorem next_prev_inverse:
  assumes "0 \<le> currentIndex s" "currentIndex s < int (length (announcements s))"
  shows "map_option currentIndex (Option.bind (handleNext s) handlePrev) = Some (currentIndex s)
       \<and> map_option currentIndex (Option.bind (handlePrev s) handleNext) = Some (currentIndex s)"
proof -
  let ?n = "int (length (announcements s))"
  have ne: "length (announcements s) \<noteq> 0" using assms by auto
  have pos: "0 < ?n" using assms by linarith
  from handleNext_index [OF assms(1) ne] obtain s1 where s1: "handleNext s = Some s1"
    "announcements s1 = announcements s" "currentIndex s1 = (currentIndex s + 1) mod ?n"
    by blast
  have "0 \<le> currentIndex s1" unfolding s1(3) using pos by (rule pos_mod_sign)
  from handlePrev_index [OF this] ne s1(2) obtain s2 where s2: "handlePrev s1 = Some s2"
    "currentIndex s2 = (currentIndex s1 - 1 + ?n) mod ?n"
    by auto
  have a: "currentIndex s2 = currentIndex s"
    unfolding s2(2) s1(3) using assms by (rule next_prev_arith(1))
  from handlePrev_index [OF assms(1) ne] obtain t1 where t1: "handlePrev s = Some t1"
    "announcements t1 = announcements s" "currentIndex t1 = (currentIndex s - 1 + ?n) mod ?n"
    by blast
  have "0 \<le> currentIndex t1" unfolding t1(3) using pos by (rule pos_mod_sign)
  from handleNext_index [OF this] ne t1(2) obtain t2 where t2: "handleNext t1 = Some t2"
    "currentIndex t2 = (currentIndex t1 + 1) mod ?n"
    by auto
  have b: "currentIndex t2 = currentIndex s"
    unfolding t2(2) t1(3) using assms by (rule next_prev_arith(2))
  show ?thesis using s1(1) s2(1) a t1(1) t2(1) b by simp
qed

text \<open>
  As stated for every index, C10 fails: with two items and the index 2 left behind by a
  shrinking list, next gives 1 and prev gives 0, not 2.
\<close>

theorem next_prev_counterexample:
  "map_option currentIndex (run mount shrink_to_two) = Some 2
   \<and> map_option (length \<circ> announcements) (run mount shrink_to_two) = Some 2
   \<and> map_option currentIndex (run mount (shrink_to_two @ [ClickNext, ClickPrev])) = Some 0"
  by (simp add: shrink_to_two_def all_defs)

text \<open>Five items, index 0: both round trips return to 0.\<close>

theorem next_prev_inverse_witness:
  "0 \<le> currentIndex five \<and> currentIndex five < int (length (announcements five))
   \<and> map_option currentIndex (Option.bind (handleNext five) handlePrev) = Some 0
   \<and> map_option currentIndex (Option.bind (handlePrev five) handleNext) = Some 0"
  using next_prev_inverse [of five]
  by (simp add: five_def item_A_def item_B_def item_C_def item_D_def item_E_def mount_def
        setter_defs effect_defs)

section \<open>Failed fetches\<close>

lemma fetch_list_failed:
  "error r = Some e \<Longrightarrow>
     fetch_list r s = s\<lparr>console := console s @ [''Error fetching announcements: '' @ e]\<rparr>"
  by (simp add: fetch_list_def)

lemma fetch_list_fields:
  "currentIndex (fetch_list r s) = currentIndex s"
  "loading (fetch_list r s) = loading s"
  "refreshInterval (fetch_list r s) = refreshInterval s"
  "intervals (fetch_list r s) = intervals s"
  "poll_cleanup (fetch_list r s) = poll_cleanup s"
  by (cases "error r"; simp add: fetch_list_def setAnnouncements_fields)+

lemma fetch_settings_fields:
  "announcements (fetch_settings r s) = announcements s"
  "currentIndex (fetch_settings r s) = currentIndex s"
  "timeouts (fetch_settings r s) = timeouts s"
  "cycle_cleanup (fetch_settings r s) = cycle_cleanup s"
  "console (fetch_settings r s) = console s"
  by (cases r; simp add: fetch_settings_def setLoading_def setRefreshInterval_fields)+

text \<open>
  Claim C5, as amended. The two queries of a fetch are handled independently. If the
  announcements query fails, the error is logged and the announcement list is retained
  unchanged, whatever the settings query returns. If the settings query fails, the refresh
  interval and the armed poll interval are retained unchanged, whatever the announcements
  query returns, so the next poll fires at the same cadence. If both fail, the state is
  unchanged but for the log entry and \<^verbatim>\<open>loading\<close> being false.
\<close>

theorem failed_query_retains:
  "(error r = Some e \<longrightarrow>
      fetch_list r s = s\<lparr>console := console s @ [''Error fetching announcements: '' @ e]\<rparr>
      \<and> announcements (fetchAnnouncements r st s) = announcements s
      \<and> console (fetchAnnouncements r st s)
          = console s @ [''Error fetching announcements: '' @ e])
   \<and> fetch_settings None s = s\<lparr>loading := False\<rparr>
   \<and> refreshInterval (fetchAnnouncements r None s) = refreshInterval s
   \<and> intervals (fetchAnnouncements r None s) = intervals s
   \<and> (error r = Some e \<longrightarrow>
        fetchAnnouncements r None s
          = s\<lparr>loading := False,
               console := console s @ [''Error fetching announcements: '' @ e]\<rparr>)"
proof -
  have a: "fetch_settings None t = t\<lparr>loading := False\<rparr>" for t
    by (simp add: fetch_settings_def setLoading_def)
  have b: "refreshInterval (fetchAnnouncements r None s) = refreshInterval s"
    "intervals (fetchAnnouncements r None s) = intervals s"
    by (simp_all add: fetchAnnouncements_def a fetch_list_fields)
  have c: "announcements (fetchAnnouncements r st s) = announcements s"
    "console (fetchAnnouncements r st s) = console s @ [''Error fetching announcements: '' @ e]"
    "fetchAnnouncements r None s
          = s\<lparr>loading := False,
               console := console s @ [''Error fetching announcements: '' @ e]\<rparr>"
    if "error r = Some e"
    using that
    by (simp_all add: fetchAnnouncements_def fetch_settings_fields fetch_list_failed a)
  show ?thesis using a b c fetch_list_failed by simp
qed

text \<open>Both queries fail after the first fetch: only the console changes.\<close>

theorem failed_query_retains_witness:
  "error (failed ''timeout'') = Some ''timeout''
   \<and> announcements (fetchAnnouncements (failed ''timeout'') None booted)
       = [item_A, item_B, item_C]
   \<and> console (fetchAnnouncements (failed ''timeout'') None booted)
       = [''Error fetching announcements: timeout'']
   \<and> refreshInterval (fetchAnnouncements (failed ''timeout'') None booted) = 5
   \<and> intervals (fetchAnnouncements (failed ''timeout'') None booted) = intervals booted
   \<and> fetchAnnouncements (failed ''timeout'') None booted
       = booted\<lparr>console := [''Error fetching announcements: timeout'']\<rparr>"
  using failed_query_retains [of "failed ''timeout''" "''timeout''" booted None]
  by (simp add: booted_def failed_def all_defs)

text \<open>
  As stated for every failing fetch, C5 fails. A fetch whose announcements query fails and
  whose settings query returns 7 changes the cadence from 5 to 7 minutes; a fetch whose
  settings query fails logs nothing and replaces the list.
\<close>

theorem failed_fetch_counterexample:
  "run mount boot = Some booted
   \<and> refreshInterval booted = 5 \<and> map snd (intervals booted) = [300000]
   \<and> refreshInterval
        (fetchAnnouncements (failed ''timeout'') (Some \<lparr>refresh_interval = 7\<rparr>) booted) = 7
   \<and> map snd (intervals
        (fetchAnnouncements (failed ''timeout'') (Some \<lparr>refresh_interval = 7\<rparr>) booted))
       = [420000]
   \<and> console (fetchAnnouncements \<lparr>data = Some [item_A], error = None\<rparr> None booted) = []
   \<and> announcements (fetchAnnouncements \<lparr>data = Some [item_A], error = None\<rparr> None booted)
       = [item_A]"
  by (simp add: booted_def failed_def all_defs)

section \<open>A single item\<close>

lemma single_noops:
  assumes "length (announcements s) = 1" "currentIndex s = 0"
  shows "handleNext s = Some s" "handlePrev s = Some s"
  using assms by (simp_all add: handleNext_def handlePrev_def js_rem_def setCurrentIndex_def)

lemma single_step:
  assumes inv: "display_inv s" and c: "currentIndex s = 0"
    and len: "length (announcements s) \<le> 1"
    and e: "short_list e" and st: "step s e = Some s'"
  shows "currentIndex s' = 0 \<and> length (announcements s') \<le> 1"
proof (cases e)
  case (TimerFired h)
  from inv have "cycle_inv s" by (simp add: display_inv_def)
  from timer_fired_single [OF this len] st TimerFired show ?thesis by (simp add: step_def)
next
  case ClickPrev
  with st have r: "length (announcements s) \<noteq> 0" and h: "handlePrev s = Some s'"
    by (simp_all add: step_def controls_rendered_def split: if_splits)
  from r len have "length (announcements s) = 1" by linarith
  from single_noops(2) [OF this c] h have "s' = s" by simp
  with c len show ?thesis by simp
next
  case ClickNext
  with st have r: "length (announcements s) \<noteq> 0" and h: "handleNext s = Some s'"
    by (simp_all add: step_def controls_rendered_def split: if_splits)
  from r len have "length (announcements s) = 1" by linarith
  from single_noops(1) [OF this c] h have "s' = s" by simp
  with c len show ?thesis by simp
next
  case (ClickDot idx)
  with st have "idx < length (announcements s)" and s': "s' = setCurrentIndex (int idx) s"
    by (simp_all add: step_def split: if_splits)
  with len have "idx = 0" by linarith
  with s' c have "s' = s" by (simp add: setCurrentIndex_def)
  with c len show ?thesis by simp
next
  case (ListResponse r)
  with st have s': "s' = fetch_list r s" by (simp add: step_def)
  show ?thesis
  proof (cases "error r")
    case None
    with e ListResponse have "length (case data r of Some xs \<Rightarrow> xs | None \<Rightarrow> []) \<le> 1"
      by (simp add: short_list_def)
    with None s' c show ?thesis
      by (simp add: fetch_list_def setAnnouncements_fields)
  next
    case (Some a)
    with s' c len show ?thesis by (simp add: fetch_list_def)
  qed
next
  case (SettingsResponse r)
  with st have "s' = fetch_settings r s" by (simp add: step_def)
  with c len show ?thesis by (simp add: fetch_settings_fields)
qed

lemma single_run:
  assumes "display_inv s" "currentIndex s = 0" "length (announcements s) \<le> 1"
    "list_all short_list es" "run s es = Some s'"
  shows "currentIndex s' = 0 \<and> length (announcements s') \<le> 1"
  using assms
proof (induction es arbitrary: s)
  case Nil
  then show ?case by simp
next
  case (Cons e es)
  from Cons.prems(5) obtain s1 where s1: "step s e = Some s1" and r: "run s1 es = Some s'"
    by (auto split: option.splits)
  from Cons.prems(4) have e: "short_list e" and es: "list_all short_list es" by simp_all
  from single_step [OF Cons.prems(1-3) e s1]
  have "currentIndex s1 = 0" "length (announcements s1) \<le> 1" by simp_all
  moreover have "display_inv s1" using Cons.prems(1) s1 by (rule step_inv)
  ultimately show ?case using Cons.IH es r by blast
qed

text \<open>
  Claim C7. Whenever the list has length 1, no advance timer is armed and none can fire;
  at index 0 manual next and prev leave the whole state, and so \<^verbatim>\<open>currentIndex\<close>,
  unchanged; and the index is 0 whenever the display never held more than one item.
\<close>

theorem single_item_static:
  assumes "run mount es = Some s" "length (announcements s) = 1"
  shows "timeouts s = [] \<and> (\<forall>h. step s (TimerFired h) = None)
       \<and> (currentIndex s = 0 \<longrightarrow> handleNext s = Some s \<and> handlePrev s = Some s)
       \<and> (list_all short_list es \<longrightarrow> currentIndex s = 0)"
proof -
  have inv: "cycle_inv s" using reachable_inv [OF assms(1)] by (simp add: display_inv_def)
  have "timeouts s = []" using inv assms(2) by (simp add: cycle_inv_def)
  moreover have "\<forall>h. step s (TimerFired h) = None"
    using timer_fired_single [OF inv] assms(2) by (simp add: step_def)
  moreover have "list_all short_list es \<longrightarrow> currentIndex s = 0"
    using single_run [OF mount_inv _ _ _ assms(1)] by (simp add: mount_def effect_defs)
  ultimately show ?thesis using single_noops [OF assms(2)] by simp
qed

text \<open>A session with the single item A, in which next and prev are clicked.\<close>

theorem single_item_static_witness:
  "run mount single_session \<noteq> None
   \<and> length (announcements (the (run mount single_session))) = 1
   \<and> list_all short_list single_session
   \<and> currentIndex (the (run mount single_session)) = 0
   \<and> timeouts (the (run mount single_session)) = []
   \<and> handleNext (the (run mount single_session)) = run mount single_session
   \<and> handlePrev (the (run mount single_session)) = run mount single_session"
  using single_item_static [of single_session "the (run mount single_session)"]
  by (simp add: single_session_def short_list_def all_defs)

section \<open>Rotation\<close>

lemma cycling_step:
  assumes inv: "display_inv s" and len: "2 \<le> length (announcements s)"
  shows "\<exists>h s'. map handle (timeouts s) = [h]
     \<and> map delay (timeouts s) =
         [or_default (Option.bind (at_index (announcements s) (currentIndex s)) display_duration) 10
            * 1000]
     \<and> map captured (timeouts s) = [announcements s]
     \<and> step s (TimerFired h) = Some s' \<and> display_inv s'
     \<and> announcements s' = announcements s
     \<and> currentIndex s' = (currentIndex s + 1) mod int (length (announcements s))"
proof -
  from inv have c: "cycle_inv s" by (simp add: display_inv_def)
  from timer_fired_cycling [OF c len] obtain h s' where h: "cycle_cleanup s = Some h"
    and f: "timer_fired h s = Some s'"
    by blast
  have st: "step s (TimerFired h) = Some s'" using f by (simp add: step_def)
  have ts: "timeouts s =
      [\<lparr>handle = h,
        delay = or_default (Option.bind (at_index (announcements s) (currentIndex s))
                  display_duration) 10 * 1000,
        captured = announcements s\<rparr>]"
    using c len h by (simp add: cycle_inv_def)
  have "display_inv s'" using inv st by (rule step_inv)
  moreover note timer_fired_inv [OF c f]
  ultimately show ?thesis using st ts by simp
qed

lemma in_range_mod:
  fixes c n :: int
  assumes "2 \<le> n"
  shows "0 \<le> (c + 1) mod n" "(c + 1) mod n < n"
  using assms by simp_all

text \<open>
  Claim C1. In every reachable state with a list of at least two items and an in-range
  \<^verbatim>\<open>currentIndex\<close> whose item has a positive \<^verbatim>\<open>display_duration\<close> of \<open>d\<close> seconds (the
  data model's durations), exactly one timer is armed, for \<open>d * 1000\<close> milliseconds. Its
  expiry sets \<^verbatim>\<open>currentIndex\<close> to \<open>(currentIndex + 1) mod length\<close>, and afterwards one
  timer is armed for the item at the new index.
\<close>

theorem cycling_timer_advance:
  assumes "run mount es = Some s"
    and "2 \<le> length (announcements s)"
    and "0 \<le> currentIndex s" "currentIndex s < int (length (announcements s))"
    and "display_duration (announcements s ! nat (currentIndex s)) = Some d" "0 < d"
  shows "\<exists>h s'. map handle (timeouts s) = [h] \<and> map delay (timeouts s) = [d * 1000]
       \<and> step s (TimerFired h) = Some s'
       \<and> announcements s' = announcements s
       \<and> currentIndex s' = (currentIndex s + 1) mod int (length (announcements s))
       \<and> (\<exists>a'. at_index (announcements s') (currentIndex s') = Some a'
              \<and> map delay (timeouts s') = [or_default (display_duration a') 10 * 1000])"
proof -
  let ?n = "int (length (announcements s))"
  have inv: "display_inv s" using assms(1) by (rule reachable_inv)
  from cycling_step [OF inv assms(2)] obtain h s' where
    h: "map handle (timeouts s) = [h]"
    and d: "map delay (timeouts s) =
         [or_default (Option.bind (at_index (announcements s) (currentIndex s)) display_duration) 10
            * 1000]"
    and st: "step s (TimerFired h) = Some s'" and inv': "display_inv s'"
    and an: "announcements s' = announcements s"
    and ci: "currentIndex s' = (currentIndex s + 1) mod ?n"
    by (elim exE conjE) (rule that; assumption)
  have "at_index (announcements s) (currentIndex s) = Some (announcements s ! nat (currentIndex s))"
    using assms(3,4) by (simp add: at_index_def)
  then have d1: "map delay (timeouts s) = [d * 1000]"
    using d assms(5,6) by (simp add: or_default_def)
  have n2: "2 \<le> ?n" using assms(2) by linarith
  have r: "0 \<le> currentIndex s'" "currentIndex s' < int (length (announcements s'))"
    unfolding ci an using n2 by (rule in_range_mod)+
  then have a': "at_index (announcements s') (currentIndex s')
      = Some (announcements s' ! nat (currentIndex s'))"
    by (simp add: at_index_def)
  have len': "2 \<le> length (announcements s')" using assms(2) an by simp
  from cycling_step [OF inv' len'] have "map delay (timeouts s') =
      [or_default (Option.bind (at_index (announcements s') (currentIndex s')) display_duration) 10
         * 1000]"
    by (elim exE conjE)
  then have "map delay (timeouts s') =
      [or_default (display_duration (announcements s' ! nat (currentIndex s'))) 10 * 1000]"
    by (simp add: a')
  then have "\<exists>a'. at_index (announcements s') (currentIndex s') = Some a'
      \<and> map delay (timeouts s') = [or_default (display_duration a') 10 * 1000]"
    using a' by (intro exI conjI)
  with h d1 st an ci show ?thesis
    by - (rule exI [of _ h], rule exI [of _ s'], intro conjI; assumption)
qed

text \<open>After the first fetch of A, B, C: a timer of 5000 ms, whose expiry moves to index 1.\<close>

theorem cycling_timer_advance_witness:
  "run mount boot = Some booted
   \<and> 2 \<le> length (announcements booted)
   \<and> 0 \<le> currentIndex booted \<and> currentIndex booted < int (length (announcements booted))
   \<and> display_duration (announcements booted ! nat (currentIndex booted)) = Some 5
   \<and> (\<exists>h s'. map handle (timeouts booted) = [h] \<and> map delay (timeouts booted) = [5 * 1000]
       \<and> step booted (TimerFired h) = Some s'
       \<and> announcements s' = announcements booted
       \<and> currentIndex s' = (currentIndex booted + 1) mod int (length (announcements booted))
       \<and> (\<exists>a'. at_index (announcements s') (currentIndex s') = Some a'
              \<and> map delay (timeouts s') = [or_default (display_duration a') 10 * 1000]))"
proof -
  have 1: "run mount boot = Some booted" by (simp add: booted_def all_defs)
  have 2: "2 \<le> length (announcements booted)" by (simp add: booted_def all_defs)
  have 3: "0 \<le> currentIndex booted" by (simp add: booted_def all_defs)
  have 4: "currentIndex booted < int (length (announcements booted))"
    by (simp add: booted_def all_defs)
  have 5: "display_duration (announcements booted ! nat (currentIndex booted)) = Some 5"
    by (simp add: booted_def all_defs)
  have 6: "(0::int) < 5" by simp
  from 1 2 3 4 5 cycling_timer_advance [OF 1 2 3 4 5 6] show ?thesis
    by - (intro conjI; assumption)
qed

lemma cycling_default:
  assumes inv: "display_inv s" and len: "2 \<le> length (announcements s)"
    and bad: "int (length (announcements s)) \<le> currentIndex s
         \<or> display_duration (announcements s ! nat (currentIndex s)) = None
         \<or> display_duration (announcements s ! nat (currentIndex s)) = Some 0"
  shows "\<exists>h s'. map handle (timeouts s) = [h] \<and> map delay (timeouts s) = [10 * 1000]
       \<and> step s (TimerFired h) = Some s'
       \<and> currentIndex s' = (currentIndex s + 1) mod int (length (announcements s))
       \<and> 0 \<le> currentIndex s' \<and> currentIndex s' < int (length (announcements s))"
proof -
  let ?n = "int (length (announcements s))"
  from cycling_step [OF inv len] obtain h s' where
    h: "map handle (timeouts s) = [h]"
    and d: "map delay (timeouts s) =
         [or_default (Option.bind (at_index (announcements s) (currentIndex s)) display_duration) 10
            * 1000]"
    and st: "step s (TimerFired h) = Some s'"
    and ci: "currentIndex s' = (currentIndex s + 1) mod ?n"
    by (elim exE conjE) (rule that; assumption)
  have "or_default (Option.bind (at_index (announcements s) (currentIndex s)) display_duration) 10
      = 10"
    using bad by (auto simp: at_index_def or_default_def)
  with d have d1: "map delay (timeouts s) = [10 * 1000]" by simp
  have n2: "2 \<le> ?n" using len by linarith
  have "0 \<le> currentIndex s'" "currentIndex s' < ?n"
    unfolding ci using n2 by (rule in_range_mod)+
  with h d1 st ci show ?thesis
    by - (rule exI [of _ h], rule exI [of _ s'], intro conjI; assumption)
qed

text \<open>
  Claim C9. In every reachable state with a list of at least two items, if
  \<^verbatim>\<open>currentIndex\<close> is out of range of the list, or the current item's
  \<^verbatim>\<open>display_duration\<close> is missing or 0, one timer is armed all the same, for the default of
  10 seconds, and its expiry sets \<^verbatim>\<open>currentIndex\<close> to \<open>(currentIndex + 1) mod length\<close>,
  which is in range.
\<close>

theorem cycle_default_duration:
  assumes "run mount es = Some s" and "2 \<le> length (announcements s)"
    and "int (length (announcements s)) \<le> currentIndex s
         \<or> display_duration (announcements s ! nat (currentIndex s)) = None
         \<or> display_duration (announcements s ! nat (currentIndex s)) = Some 0"
  shows "\<exists>h s'. map handle (timeouts s) = [h] \<and> map delay (timeouts s) = [10 * 1000]
       \<and> step s (TimerFired h) = Some s'
       \<and> currentIndex s' = (currentIndex s + 1) mod int (length (announcements s))
       \<and> 0 \<le> currentIndex s' \<and> currentIndex s' < int (length (announcements s))"
  using cycling_default [OF reachable_inv [OF assms(1)] assms(2,3)] .

text \<open>
  Index 2 on a list shortened to two items, the item D of duration 0 and the item E without
  a duration: 10000 ms each time.
\<close>

theorem cycle_default_duration_witness:
  "run mount shrink_to_two \<noteq> None
   \<and> int (length (announcements (the (run mount shrink_to_two))))
        \<le> currentIndex (the (run mount shrink_to_two))
   \<and> (\<exists>h s'. map handle (timeouts (the (run mount shrink_to_two))) = [h]
       \<and> map delay (timeouts (the (run mount shrink_to_two))) = [10 * 1000]
       \<and> step (the (run mount shrink_to_two)) (TimerFired h) = Some s'
       \<and> currentIndex s' = (currentIndex (the (run mount shrink_to_two)) + 1)
            mod int (length (announcements (the (run mount shrink_to_two))))
       \<and> 0 \<le> currentIndex s'
       \<and> currentIndex s' < int (length (announcements (the (run mount shrink_to_two)))))
   \<and> run mount to_item_D \<noteq> None
   \<and> display_duration (announcements (the (run mount to_item_D))
         ! nat (currentIndex (the (run mount to_item_D)))) = Some 0
   \<and> map delay (timeouts (the (run mount to_item_D))) = [10 * 1000]
   \<and> run mount to_item_E \<noteq> None
   \<and> display_duration (announcements (the (run mount to_item_E))
         ! nat (currentIndex (the (run mount to_item_E)))) = None
   \<and> map delay (timeouts (the (run mount to_item_E))) = [10 * 1000]"
proof -
  let ?s = "the (run mount shrink_to_two)"
  have 1: "run mount shrink_to_two = Some ?s" by (simp add: shrink_to_two_def all_defs)
  have 2: "2 \<le> length (announcements ?s)" by (simp add: shrink_to_two_def all_defs)
  have 3: "int (length (announcements ?s)) \<le> currentIndex ?s"
    by (simp add: shrink_to_two_def all_defs)
  have 4: "run mount shrink_to_two \<noteq> None" by (simp add: shrink_to_two_def all_defs)
  let ?t = "the (run mount to_item_D)"
  have t1: "run mount to_item_D = Some ?t" by (simp add: to_item_D_def all_defs)
  have t2: "2 \<le> length (announcements ?t)" by (simp add: to_item_D_def all_defs)
  have t3: "display_duration (announcements ?t ! nat (currentIndex ?t)) = Some 0"
    by (simp add: to_item_D_def all_defs)
  have t4: "run mount to_item_D \<noteq> None" by (simp add: to_item_D_def all_defs)
  from cycle_default_duration [OF t1 t2 disjI2 [OF disjI2 [OF t3]]]
  have t5: "map delay (timeouts ?t) = [10 * 1000]" by (elim exE conjE)
  let ?u = "the (run mount to_item_E)"
  have u1: "run mount to_item_E = Some ?u" by (simp add: to_item_E_def all_defs)
  have u2: "2 \<le> length (announcements ?u)" by (simp add: to_item_E_def all_defs)
  have u3: "display_duration (announcements ?u ! nat (currentIndex ?u)) = None"
    by (simp add: to_item_E_def all_defs)
  have u4: "run mount to_item_E \<noteq> None" by (simp add: to_item_E_def all_defs)
  from cycle_default_duration [OF u1 u2 disjI2 [OF disjI1 [OF u3]]]
  have u5: "map delay (timeouts ?u) = [10 * 1000]" by (elim exE conjE)
  from 4 3 cycle_default_duration [OF 1 2 disjI1 [OF 3]] t4 t3 t5 u4 u3 u5 show ?thesis
    by - (intro conjI; assumption)
qed

section \<open>List replacement\<close>

text \<open>
  Claim C3, as amended. A list replacement never changes \<^verbatim>\<open>currentIndex\<close>, in range or not
  (it is never reset to 0). If the new list has at least two items and \<^verbatim>\<open>currentIndex\<close> is
  out of its range, the replacement arms one timer of the default 10 seconds, and the expiry
  of that timer sets \<^verbatim>\<open>currentIndex\<close> to \<open>(currentIndex + 1) mod length\<close>, which is in range.
\<close>

theorem replacement_keeps_index:
  assumes "run mount es = Some s" and "error r = None" and "data r = Some xs"
  shows "currentIndex (fetch_list r s) = currentIndex s \<and> announcements (fetch_list r s) = xs
     \<and> (2 \<le> length xs \<and> int (length xs) \<le> currentIndex s \<longrightarrow>
          (\<exists>h s'. map handle (timeouts (fetch_list r s)) = [h]
             \<and> map delay (timeouts (fetch_list r s)) = [10 * 1000]
             \<and> step (fetch_list r s) (TimerFired h) = Some s'
             \<and> currentIndex s' = (currentIndex s + 1) mod int (length xs)
             \<and> 0 \<le> currentIndex s' \<and> currentIndex s' < int (length xs)))"
proof -
  let ?s1 = "fetch_list r s"
  have inv: "display_inv ?s1" using reachable_inv [OF assms(1)] by (rule fetch_list_inv)
  have c: "currentIndex ?s1 = currentIndex s" by (simp add: fetch_list_fields)
  have a: "announcements ?s1 = xs"
    using assms(2,3) by (simp add: fetch_list_def setAnnouncements_fields)
  have "\<exists>h s'. map handle (timeouts ?s1) = [h]
             \<and> map delay (timeouts ?s1) = [10 * 1000]
             \<and> step ?s1 (TimerFired h) = Some s'
             \<and> currentIndex s' = (currentIndex s + 1) mod int (length xs)
             \<and> 0 \<le> currentIndex s' \<and> currentIndex s' < int (length xs)"
    if "2 \<le> length xs" "int (length xs) \<le> currentIndex s"
  proof -
    have "2 \<le> length (announcements ?s1)" using that a by simp
    moreover have "int (length (announcements ?s1)) \<le> currentIndex ?s1
         \<or> display_duration (announcements ?s1 ! nat (currentIndex ?s1)) = None
         \<or> display_duration (announcements ?s1 ! nat (currentIndex ?s1)) = Some 0"
      using that a c by simp
    ultimately show ?thesis using cycling_default [OF inv] unfolding a c by blast
  qed
  with c a show ?thesis by blast
qed

text \<open>Index 2 of A, B, C; the list is replaced by C, B: the index stays 2 until the timer sets it to 1.\<close>

theorem replacement_keeps_index_witness:
  "run mount (boot @ [ClickNext, ClickNext]) \<noteq> None
   \<and> currentIndex (the (run mount (boot @ [ClickNext, ClickNext]))) = 2
   \<and> currentIndex (fetch_list \<lparr>data = Some [item_C, item_B], error = None\<rparr>
        (the (run mount (boot @ [ClickNext, ClickNext])))) = 2
   \<and> (\<exists>h s'. map handle (timeouts (fetch_list \<lparr>data = Some [item_C, item_B], error = None\<rparr>
                  (the (run mount (boot @ [ClickNext, ClickNext]))))) = [h]
        \<and> map delay (timeouts (fetch_list \<lparr>data = Some [item_C, item_B], error = None\<rparr>
                  (the (run mount (boot @ [ClickNext, ClickNext]))))) = [10 * 1000]
        \<and> step (fetch_list \<lparr>data = Some [item_C, item_B], error = None\<rparr>
                  (the (run mount (boot @ [ClickNext, ClickNext])))) (TimerFired h) = Some s'
        \<and> currentIndex s' = 1)"
proof -
  let ?s = "the (run mount (boot @ [ClickNext, ClickNext]))"
  let ?r = "\<lparr>data = Some [item_C, item_B], error = None\<rparr>"
  have 1: "run mount (boot @ [ClickNext, ClickNext]) = Some ?s" by (simp add: all_defs)
  have 2: "error ?r = None" by simp
  have 3: "data ?r = Some [item_C, item_B]" by simp
  have 4: "currentIndex ?s = 2" by (simp add: all_defs)
  have 5: "run mount (boot @ [ClickNext, ClickNext]) \<noteq> None" by (simp add: all_defs)
  have 6: "2 \<le> length [item_C, item_B] \<and> int (length [item_C, item_B]) \<le> currentIndex ?s"
    using 4 by simp
  from replacement_keeps_index [OF 1 2 3] 6
  have "currentIndex (fetch_list ?r ?s) = currentIndex ?s"
    and "\<exists>h s'. map handle (timeouts (fetch_list ?r ?s)) = [h]
             \<and> map delay (timeouts (fetch_list ?r ?s)) = [10 * 1000]
             \<and> step (fetch_list ?r ?s) (TimerFired h) = Some s'
             \<and> currentIndex s' = (currentIndex ?s + 1) mod int (length [item_C, item_B])
             \<and> 0 \<le> currentIndex s' \<and> currentIndex s' < int (length [item_C, item_B])"
    by blast+
  then show ?thesis using 4 5 by auto
qed

text \<open>
  As stated, C3 fails: when the list shrinks to the single item A at index 2, the index stays
  2, out of range; no timer is armed that would change it, and the next replacement leaves
  it at 2 again.
\<close>

theorem replacement_counterexample:
  "map_option currentIndex (run mount shrink_to_one) = Some 2
   \<and> map_option (length \<circ> announcements) (run mount shrink_to_one) = Some 1
   \<and> map_option timeouts (run mount shrink_to_one) = Some []
   \<and> map_option currentIndex (run mount (shrink_to_one @ [loaded [item_A]])) = Some 2"
  by (simp add: shrink_to_one_def all_defs)

section \<open>At most one advance timer\<close>

lemma timeouts_count:
  "cycle_inv s \<Longrightarrow> length (timeouts s) = (if 2 \<le> length (announcements s) then 1 else 0)"
  by (auto simp: cycle_inv_def split: option.splits if_splits)

lemma nav_step:
  assumes inv: "display_inv s" and r: "controls_rendered s" and n: "nav_click s e"
  shows "\<exists>s'. step s e = Some s' \<and> display_inv s'
           \<and> announcements s' = announcements s \<and> loading s' = loading s"
proof -
  from inv have c: "cycle_inv s" by (simp add: display_inv_def)
  from r have ne: "length (announcements s) \<noteq> 0" by (simp add: controls_rendered_def)
  have "\<exists>s'. step s e = Some s' \<and> announcements s' = announcements s \<and> loading s' = loading s"
  proof (cases e)
    case ClickPrev
    then show ?thesis
      using r handlePrev_Some [OF c ne] by (simp add: step_def setCurrentIndex_fields)
  next
    case ClickNext
    then show ?thesis
      using r handleNext_Some [OF c ne] by (simp add: step_def setCurrentIndex_fields)
  next
    case (ClickDot idx)
    then show ?thesis
      using r n by (simp add: step_def nav_click_def setCurrentIndex_fields)
  qed (use n in \<open>simp_all add: nav_click_def\<close>)
  then obtain s' where s': "step s e = Some s'" "announcements s' = announcements s"
    "loading s' = loading s"
    by blast
  moreover have "display_inv s'" using inv s'(1) by (rule step_inv)
  ultimately show ?thesis by blast
qed

lemma nav_run:
  assumes "display_inv s" "controls_rendered s" "list_all (nav_click s) clicks"
  shows "\<exists>s'. run s clicks = Some s' \<and> display_inv s' \<and> announcements s' = announcements s"
  using assms
proof (induction clicks arbitrary: s)
  case Nil
  then show ?case by simp
next
  case (Cons e es)
  from Cons.prems(3) have e: "nav_click s e" and es: "list_all (nav_click s) es" by simp_all
  from nav_step [OF Cons.prems(1,2) e] obtain s1 where s1: "step s e = Some s1"
    "display_inv s1" "announcements s1 = announcements s" "loading s1 = loading s"
    by blast
  have r1: "controls_rendered s1" using Cons.prems(2) s1(3,4) by (simp add: controls_rendered_def)
  have "nav_click s1 = nav_click s" unfolding nav_click_def s1(3) ..
  with es have "list_all (nav_click s1) es" by simp
  from Cons.IH [OF s1(2) r1 this] s1(1,3) show ?case by auto
qed

text \<open>
  Claim C2, as amended. After every sequence of events (timer expiries, prev, next and dot
  clicks, list and settings answers) exactly one advance timer is outstanding when the list
  has at least two items and none otherwise, so never more than one. The cleanup that
  precedes every re-arming, after a change of \<^verbatim>\<open>currentIndex\<close> or of the list, leaves no
  timer. After any burst of manual navigation exactly one timer remains armed when the list
  has at least two items, and none when it has one.
\<close>

theorem one_advance_timer:
  assumes "run mount es = Some s"
  shows "length (timeouts s) \<le> 1
     \<and> length (timeouts s) = (if 2 \<le> length (announcements s) then 1 else 0)
     \<and> timeouts (cycle_cleanup_run (s\<lparr>currentIndex := v\<rparr>)) = []
     \<and> timeouts (cycle_cleanup_run (s\<lparr>announcements := xs\<rparr>)) = []
     \<and> (controls_rendered s \<and> list_all (nav_click s) clicks \<longrightarrow>
          (\<exists>s'. run s clicks = Some s'
             \<and> length (timeouts s') = (if 2 \<le> length (announcements s) then 1 else 0)))"
proof -
  have inv: "display_inv s" using assms by (rule reachable_inv)
  then have c: "cycle_inv s" by (simp add: display_inv_def)
  have n: "length (timeouts s) = (if 2 \<le> length (announcements s) then 1 else 0)"
    using c by (rule timeouts_count)
  have t: "cycle_tidy s" using c by (rule cycle_inv_tidy)
  have a: "timeouts (cycle_cleanup_run (s\<lparr>currentIndex := v\<rparr>)) = []"
    using t by (intro tidy_cleanup_timeouts tidy_upd)
  have b: "timeouts (cycle_cleanup_run (s\<lparr>announcements := xs\<rparr>)) = []"
    using t by (intro tidy_cleanup_timeouts tidy_upd)
  have "\<exists>s'. run s clicks = Some s'
             \<and> length (timeouts s') = (if 2 \<le> length (announcements s) then 1 else 0)"
    if "controls_rendered s" "list_all (nav_click s) clicks"
  proof -
    from nav_run [OF inv that] obtain s' where s': "run s clicks = Some s'" "display_inv s'"
      "announcements s' = announcements s"
      by blast
    from s'(2) have "cycle_inv s'" by (simp add: display_inv_def)
    from timeouts_count [OF this] s'(1,3) show ?thesis by simp
  qed
  with n a b show ?thesis by simp
qed

text \<open>Ten rapid clicks on A, B, C leave one timer armed.\<close>

theorem one_advance_timer_witness:
  "run mount boot = Some booted
   \<and> controls_rendered booted \<and> list_all (nav_click booted) rapid_clicks
   \<and> length (timeouts booted) = 1
   \<and> (\<exists>s'. run booted rapid_clicks = Some s' \<and> length (timeouts s') = 1)"
proof -
  have 1: "run mount boot = Some booted" by (simp add: booted_def all_defs)
  have 2: "controls_rendered booted" by (simp add: booted_def all_defs)
  have 3: "list_all (nav_click booted) rapid_clicks"
    by (simp add: rapid_clicks_def nav_click_def booted_def all_defs)
  have 4: "2 \<le> length (announcements booted)" by (simp add: booted_def all_defs)
  from one_advance_timer [OF 1, of 0 "[]" rapid_clicks] 2 3 4
  have "length (timeouts booted) = 1"
    and "\<exists>s'. run booted rapid_clicks = Some s' \<and> length (timeouts s') = 1"
    by simp_all
  with 1 2 3 show ?thesis by blast
qed

text \<open>
  As stated, C2 fails in its last part: with the single item A, ten clicks on next and prev
  leave no timer armed, not one.
\<close>

theorem burst_counterexample:
  "map_option (length \<circ> announcements) (run mount single_burst) = Some 1
   \<and> map_option (length \<circ> timeouts) (run mount single_burst) = Some 0"
  by (simp add: single_burst_def all_defs)


end
